theory Spec2Isabelle
  imports Main "HOL-Library.Word"
begin

section \<open>The textual codec of libcppa: \<^verbatim>\<open>src/string_serialization.cpp\<close>\<close>

text \<open>
  The file embeds the two classes of \<^verbatim>\<open>string_serialization.cpp\<close>: the writer
  \<^verbatim>\<open>string_serializer\<close> and the reader \<^verbatim>\<open>string_deserializer\<close>. A member
  function becomes a function from the object's state (a record of its data members) to
  the state after the call; a member function that throws returns a sum, \<open>Inl\<close> holding
  the exception. Both classes use the same member names, so the writer's functions carry
  the prefix \<open>ser_\<close> and the reader's the prefix \<open>des_\<close> where they would clash.
\<close>

subsection \<open>Characters\<close>

abbreviation dquote :: char where "dquote \<equiv> CHR 0x22"
abbreviation backslash :: char where "backslash \<equiv> CHR 0x5C"
abbreviation squote :: char where "squote \<equiv> CHR 0x27"
abbreviation nul :: char where "nul \<equiv> CHR 0x00"

subsection \<open>Primitive values\<close>

text \<open>
  Modelled from the spec: \<^verbatim>\<open>cppa/primitive_variant.hpp\<close> is not among the sources. The
  spec gives the tags (bool, the signed and unsigned integers of 8 to 64 bits, the two
  floating point widths and three string encodings) and says that the tag fixes the
  payload. The stream operators that print and read a scalar belong to the C++ standard
  library; the codec's functions take them as the parameters \<open>put\<close> and \<open>get\<close>, and
  the scalar payload is the type variable \<open>'v\<close>.
\<close>

datatype scalar_type =
  st_bool | st_int8 | st_int16 | st_int32 | st_int64
  | st_uint8 | st_uint16 | st_uint32 | st_uint64 | st_float | st_double

datatype primitive_type =
  pt_scalar scalar_type | pt_u8string | pt_u16string | pt_u32string

datatype 'v primitive_variant =
  PV_scalar scalar_type 'v
  | PV_u8string string
  | PV_u16string "16 word list"
  | PV_u32string "32 word list"

subsection \<open>The writer: \<^verbatim>\<open>string_serializer\<close>\<close>

record string_serializer =
  out :: string
  m_open_objects :: int
  m_after_value :: bool
  m_obj_just_opened :: bool

text \<open>The constructor: an empty stream, no object open, both flags false.\<close>

definition string_serializer_init :: string_serializer where
  "string_serializer_init =
     \<lparr>out = [], m_open_objects = 0, m_after_value = False, m_obj_just_opened = False\<rparr>"

text \<open>\<^verbatim>\<open>pt_writer\<close>: what one primitive value appends to the stream. A byte string is
  quoted, each double quote in it written as backslash, double quote; the two wide string
  overloads have an empty body.\<close>

fun pt_writer :: "(scalar_type \<Rightarrow> 'v \<Rightarrow> string) \<Rightarrow> 'v primitive_variant \<Rightarrow> string" where
  "pt_writer put (PV_scalar t x) = put t x"
| "pt_writer put (PV_u8string str) =
     [dquote] @ concat (map (\<lambda>c. if c = dquote then [backslash, dquote] else [c]) str) @ [dquote]"
| "pt_writer put (PV_u16string _) = []"
| "pt_writer put (PV_u32string _) = []"

definition clear :: "string_serializer \<Rightarrow> string_serializer" where
  "clear w =
     (if m_after_value w then w\<lparr>out := out w @ '', '', m_after_value := False\<rparr>
      else if m_obj_just_opened w then w\<lparr>out := out w @ '' ( '', m_obj_just_opened := False\<rparr>
      else w)"

definition ser_begin_object :: "string \<Rightarrow> string_serializer \<Rightarrow> string_serializer" where
  "ser_begin_object type_name w =
     (let w1 = clear w;
          w2 = w1\<lparr>m_open_objects := m_open_objects w1 + 1\<rparr>;
          w3 = w2\<lparr>out := out w2 @ type_name\<rparr>
      in w3\<lparr>m_obj_just_opened := True\<rparr>)"

definition ser_end_object :: "string_serializer \<Rightarrow> string_serializer" where
  "ser_end_object w =
     (let w1 = (if m_obj_just_opened w then w\<lparr>m_obj_just_opened := False\<rparr>
                else w\<lparr>out := out w @ (if m_after_value w then '' )'' else '')'')\<rparr>)
      in w1\<lparr>m_after_value := True\<rparr>)"

definition ser_begin_sequence :: "nat \<Rightarrow> string_serializer \<Rightarrow> string_serializer" where
  "ser_begin_sequence n w = (let w1 = clear w in w1\<lparr>out := out w1 @ ''{ ''\<rparr>)"

definition ser_end_sequence :: "string_serializer \<Rightarrow> string_serializer" where
  "ser_end_sequence w = w\<lparr>out := out w @ (if m_after_value w then '' }'' else ''}'')\<rparr>"

definition write_value ::
  "(scalar_type \<Rightarrow> 'v \<Rightarrow> string) \<Rightarrow> 'v primitive_variant \<Rightarrow> string_serializer \<Rightarrow> string_serializer" where
  "write_value put v w =
     (let w1 = clear w;
          w2 = w1\<lparr>out := out w1 @ pt_writer put v\<rparr>
      in w2\<lparr>m_after_value := True\<rparr>)"

text \<open>The loop of \<^verbatim>\<open>write_tuple\<close> and of a caller that writes the elements of a
  sequence: one \<^verbatim>\<open>write_value\<close> per element, in order.\<close>

fun write_values ::
  "(scalar_type \<Rightarrow> 'v \<Rightarrow> string) \<Rightarrow> 'v primitive_variant list \<Rightarrow> string_serializer \<Rightarrow> string_serializer" where
  "write_values put [] w = w"
| "write_values put (v # vs) w = write_values put vs (write_value put v w)"

definition write_tuple ::
  "(scalar_type \<Rightarrow> 'v \<Rightarrow> string) \<Rightarrow> 'v primitive_variant list \<Rightarrow> string_serializer \<Rightarrow> string_serializer" where
  "write_tuple put values w =
     (let w1 = clear w;
          w2 = w1\<lparr>out := out w1 @ '' {''\<rparr>;
          w3 = write_values put values w2
      in w3\<lparr>out := out w3 @ (if m_after_value w3 then '' }'' else ''}'')\<rparr>)"

text \<open>The bracket the spec compares \<^verbatim>\<open>write_tuple\<close> with: \<^verbatim>\<open>begin_sequence(n)\<close>,
  \<^verbatim>\<open>write_value\<close> for each value, \<^verbatim>\<open>end_sequence()\<close>.\<close>

definition write_sequence ::
  "(scalar_type \<Rightarrow> 'v \<Rightarrow> string) \<Rightarrow> 'v primitive_variant list \<Rightarrow> string_serializer \<Rightarrow> string_serializer" where
  "write_sequence put values w =
     ser_end_sequence (write_values put values (ser_begin_sequence (length values) w))"

text \<open>
  The calls a client makes on the writer, a list of calls run in order from a state, and
  the number of object scopes open after such a list when \<open>d\<close> were open before it:
  \<^verbatim>\<open>begin_object\<close> opens a scope, \<^verbatim>\<open>end_object\<close> closes one if one is open. The
  count is needed to say of a writer state that no object scope is open; the writer's own
  counter \<^verbatim>\<open>m_open_objects\<close> is never decremented.
\<close>

datatype 'v ser_call =
  Begin_object string | End_object | Begin_sequence nat | End_sequence
  | Write_value "'v primitive_variant" | Write_tuple "'v primitive_variant list"

fun ser_apply :: "(scalar_type \<Rightarrow> 'v \<Rightarrow> string) \<Rightarrow> 'v ser_call \<Rightarrow> string_serializer \<Rightarrow> string_serializer" where
  "ser_apply put (Begin_object type_name) w = ser_begin_object type_name w"
| "ser_apply put End_object w = ser_end_object w"
| "ser_apply put (Begin_sequence n) w = ser_begin_sequence n w"
| "ser_apply put End_sequence w = ser_end_sequence w"
| "ser_apply put (Write_value v) w = write_value put v w"
| "ser_apply put (Write_tuple vs) w = write_tuple put vs w"

fun ser_calls :: "(scalar_type \<Rightarrow> 'v \<Rightarrow> string) \<Rightarrow> 'v ser_call list \<Rightarrow> string_serializer \<Rightarrow> string_serializer" where
  "ser_calls put [] w = w"
| "ser_calls put (c # cs) w = ser_calls put cs (ser_apply put c w)"

fun open_scopes :: "'v ser_call list \<Rightarrow> nat \<Rightarrow> nat" where
  "open_scopes [] d = d"
| "open_scopes (Begin_object type_name # cs) d = open_scopes cs (Suc d)"
| "open_scopes (End_object # cs) d = open_scopes cs (d - 1)"
| "open_scopes (c # cs) d = open_scopes cs d"

subsection \<open>The reader: \<^verbatim>\<open>string_deserializer\<close>\<close>

text \<open>
  A \<^verbatim>\<open>std::logic_error\<close> carries its message. \<open>Out_Of_Bounds\<close> is the signal of a
  character read outside the text, and \<open>Invalid_Range\<close> that of an iterator range whose
  begin lies behind its end (the argument of \<^verbatim>\<open>tmp.append\<close> in \<^verbatim>\<open>read_value\<close>).
\<close>

datatype error = Logic_Error string | Out_Of_Bounds | Invalid_Range

text \<open>
  \<^verbatim>\<open>m_pos\<close> is an iterator into \<^verbatim>\<open>m_str\<close>: an index from 0 to the length of the
  text, the length being \<^verbatim>\<open>m_str.end()\<close>. \<^verbatim>\<open>m_obj_count\<close> is a \<^verbatim>\<open>size_t\<close>, and
  the stack has its top at the head of the list.
\<close>

record string_deserializer =
  m_str :: string
  m_pos :: nat
  m_obj_count :: "64 word"
  m_obj_had_left_parenthesis :: "bool list"

definition string_deserializer_init :: "string \<Rightarrow> string_deserializer" where
  "string_deserializer_init str =
     \<lparr>m_str = str, m_pos = 0, m_obj_count = 0, m_obj_had_left_parenthesis = []\<rparr>"

text \<open>
  The read \<^verbatim>\<open>*m_pos\<close>. Inside the text it yields the character there. At
  \<^verbatim>\<open>m_str.end()\<close> the C++ standard gives the dereference no meaning, while the
  implementations of \<^verbatim>\<open>std::string\<close> read the terminating NUL that C++11 stores at
  \<^verbatim>\<open>data()[size()]\<close>. The parameter chooses between the two readings:
  \<open>Reads_Terminator\<close> returns the NUL, \<open>Checked\<close> returns the out-of-bounds signal.
  Behind the terminator both signal.
\<close>

datatype end_access = Reads_Terminator | Checked

definition deref :: "end_access \<Rightarrow> string_deserializer \<Rightarrow> error + char" where
  "deref md s =
     (if m_pos s < length (m_str s) then Inr (m_str s ! m_pos s)
      else if m_pos s = length (m_str s) \<and> md = Reads_Terminator then Inr nul
      else Inl Out_Of_Bounds)"

text \<open>\<^verbatim>\<open>std::find_if(first, last, pred)\<close> on the range given as a list: the number of
  elements before the first one that satisfies \<open>pred\<close>, the length of the range when
  there is none (the iterator \<^verbatim>\<open>last\<close>).\<close>

fun find_if :: "('a \<Rightarrow> bool) \<Rightarrow> 'a list \<Rightarrow> nat" where
  "find_if pred [] = 0"
| "find_if pred (x # xs) = (if pred x then 0 else Suc (find_if pred xs))"

definition throw_malformed :: "string \<Rightarrow> error + 'a" where
  "throw_malformed error_msg = Inl (Logic_Error (''malformed string: '' @ error_msg))"

function skip_space_and_comma :: "end_access \<Rightarrow> string_deserializer \<Rightarrow> error + string_deserializer" where
  "skip_space_and_comma md s =
     (case deref md s of
        Inl e \<Rightarrow> Inl e
      | Inr c \<Rightarrow>
          if c = CHR '' '' \<or> c = CHR '','' then skip_space_and_comma md (s\<lparr>m_pos := m_pos s + 1\<rparr>)
          else Inr s)"
  by pat_completeness auto
termination
  by (relation "measure (\<lambda>(md, s). length (m_str s) - m_pos s)")
    (auto simp: deref_def split: if_splits)

definition consume :: "end_access \<Rightarrow> char \<Rightarrow> string_deserializer \<Rightarrow> error + string_deserializer" where
  "consume md c s =
     (case skip_space_and_comma md s of
        Inl e \<Rightarrow> Inl e
      | Inr s1 \<Rightarrow>
          (case deref md s1 of
             Inl e \<Rightarrow> Inl e
           | Inr x \<Rightarrow>
               if x \<noteq> c
               then throw_malformed (''expected '' @ [squote, c, squote] @ '' found '' @ [squote, x, squote])
               else Inr (s1\<lparr>m_pos := m_pos s1 + 1\<rparr>)))"

definition try_consume ::
  "end_access \<Rightarrow> char \<Rightarrow> string_deserializer \<Rightarrow> error + (bool \<times> string_deserializer)" where
  "try_consume md c s =
     (case skip_space_and_comma md s of
        Inl e \<Rightarrow> Inl e
      | Inr s1 \<Rightarrow>
          (case deref md s1 of
             Inl e \<Rightarrow> Inl e
           | Inr x \<Rightarrow>
               if x = c then Inr (True, s1\<lparr>m_pos := m_pos s1 + 1\<rparr>)
               else Inr (False, s1)))"

text \<open>The predicate of \<^verbatim>\<open>next_delimiter\<close>, and the iterator it returns as an index.\<close>

definition is_delimiter :: "char \<Rightarrow> bool" where
  "is_delimiter c =
     (c = CHR ''('' \<or> c = CHR '')'' \<or> c = CHR ''{'' \<or> c = CHR ''}'' \<or> c = CHR '' '' \<or> c = CHR '','')"

definition next_delimiter :: "string_deserializer \<Rightarrow> nat" where
  "next_delimiter s = m_pos s + find_if is_delimiter (drop (m_pos s) (m_str s))"

definition integrity_check :: "string_deserializer \<Rightarrow> error + unit" where
  "integrity_check s =
     (if m_obj_had_left_parenthesis s = [] then throw_malformed ''missing begin_object()''
      else if hd (m_obj_had_left_parenthesis s) = False
      then throw_malformed ''expected left parenthesis after begin_object call or void value''
      else Inr ())"

definition seek_object :: "end_access \<Rightarrow> string_deserializer \<Rightarrow> error + (string \<times> string_deserializer)" where
  "seek_object md s =
     (case skip_space_and_comma md s of
        Inl e \<Rightarrow> Inl e
      | Inr s1 \<Rightarrow>
          (let substr_end = next_delimiter s1 in
           if m_pos s1 = substr_end then throw_malformed ''could not seek object type name''
           else Inr (take (substr_end - m_pos s1) (drop (m_pos s1) (m_str s1)),
                     s1\<lparr>m_pos := substr_end\<rparr>)))"

definition peek_object :: "end_access \<Rightarrow> string_deserializer \<Rightarrow> error + (string \<times> string_deserializer)" where
  "peek_object md s =
     (case seek_object md s of
        Inl e \<Rightarrow> Inl e
      | Inr (result, s1) \<Rightarrow> Inr (result, s1\<lparr>m_pos := m_pos s1 - length result\<rparr>))"

definition des_begin_object ::
  "end_access \<Rightarrow> string \<Rightarrow> string_deserializer \<Rightarrow> error + string_deserializer" where
  "des_begin_object md type_name s =
     (case skip_space_and_comma md (s\<lparr>m_obj_count := m_obj_count s + 1\<rparr>) of
        Inl e \<Rightarrow> Inl e
      | Inr s1 \<Rightarrow>
          (case try_consume md (CHR ''('') s1 of
             Inl e \<Rightarrow> Inl e
           | Inr (b, s2) \<Rightarrow>
               Inr (s2\<lparr>m_obj_had_left_parenthesis := b # m_obj_had_left_parenthesis s2\<rparr>)))"

definition des_end_object :: "end_access \<Rightarrow> string_deserializer \<Rightarrow> error + string_deserializer" where
  "des_end_object md s =
     (if m_obj_had_left_parenthesis s = [] then throw_malformed ''missing begin_object()''
      else
        (case (if hd (m_obj_had_left_parenthesis s) = True then consume md (CHR '')'') s else Inr s) of
           Inl e \<Rightarrow> Inl e
         | Inr s1 \<Rightarrow>
             (let s2 = s1\<lparr>m_obj_had_left_parenthesis := tl (m_obj_had_left_parenthesis s1)\<rparr>;
                  s3 = s2\<lparr>m_obj_count := m_obj_count s2 - 1\<rparr>
              in if m_obj_count s3 = 0
                 then (case skip_space_and_comma md s3 of
                         Inl e \<Rightarrow> Inl e
                       | Inr s4 \<Rightarrow>
                           if m_pos s4 \<noteq> length (m_str s4)
                           then throw_malformed ''expected end of of string''
                           else Inr s4)
                 else Inr s3)))"

text \<open>\<^verbatim>\<open>begin_sequence\<close>: \<^verbatim>\<open>std::find\<close> looks for the first closing brace from the
  cursor on, \<^verbatim>\<open>std::count\<close> counts the commas before it.\<close>

definition des_begin_sequence :: "end_access \<Rightarrow> string_deserializer \<Rightarrow> error + (nat \<times> string_deserializer)" where
  "des_begin_sequence md s =
     (case integrity_check s of
        Inl e \<Rightarrow> Inl e
      | Inr _ \<Rightarrow>
          (case consume md (CHR ''{'') s of
             Inl e \<Rightarrow> Inl e
           | Inr s1 \<Rightarrow>
               (let rest = drop (m_pos s1) (m_str s1);
                    list_end = find_if (\<lambda>c. c = CHR ''}'') rest
                in Inr (count_list (take list_end rest) (CHR '','') + 1, s1))))"

definition des_end_sequence :: "end_access \<Rightarrow> string_deserializer \<Rightarrow> error + string_deserializer" where
  "des_end_sequence md s = consume md (CHR ''}'') s"

subsection \<open>\<^verbatim>\<open>read_value\<close>\<close>

text \<open>The predicate \<^verbatim>\<open>find_if_cond\<close> that bounds an unquoted token.\<close>

definition find_if_cond :: "char \<Rightarrow> bool" where
  "find_if_cond c = (c = CHR '')'' \<or> c = CHR ''}'' \<or> c = CHR '' '' \<or> c = CHR '','')"

text \<open>
  The two other predicates capture the local variable \<^verbatim>\<open>last_char\<close> by reference:
  they answer from it and the character at hand, and store the character when the
  answer is no. \<open>find_if_last\<close> is \<^verbatim>\<open>std::find_if\<close> with such a predicate: it returns
  the number of characters before the match (the length of the range when there is none)
  and the value \<^verbatim>\<open>last_char\<close> is left with.
\<close>

definition find_if_str_cond :: "char \<Rightarrow> char \<Rightarrow> bool" where
  "find_if_str_cond last_char c = (c = dquote \<and> last_char \<noteq> backslash)"

definition cond :: "char \<Rightarrow> char \<Rightarrow> bool" where
  "cond last_char c = (c = dquote \<and> last_char = backslash)"

fun find_if_last :: "(char \<Rightarrow> char \<Rightarrow> bool) \<Rightarrow> char \<Rightarrow> string \<Rightarrow> nat \<times> char" where
  "find_if_last p last_char [] = (0, last_char)"
| "find_if_last p last_char (c # cs) =
     (if p last_char c then (0, last_char)
      else (case find_if_last p c cs of (k, l) \<Rightarrow> (Suc k, l)))"

text \<open>
  The loop that replaces backslash, double quote by a double quote. Each round starts
  \<^verbatim>\<open>find_if\<close> at \<^verbatim>\<open>sbegin\<close> (the loop leaves \<^verbatim>\<open>i\<close> equal to it) and finds a
  quote \<open>k\<close> characters on; it appends the \<open>k - 1\<close> characters before the backslash
  and a quote, and goes on behind the quote. \<^verbatim>\<open>last_char\<close> keeps its value from one
  \<^verbatim>\<open>find_if\<close> to the next. A match at \<^verbatim>\<open>sbegin\<close> itself makes \<^verbatim>\<open>--i\<close> step in
  front of \<^verbatim>\<open>sbegin\<close>, and the range handed to \<^verbatim>\<open>append\<close> is invalid. The loop
  returns the final \<^verbatim>\<open>sbegin\<close> and \<^verbatim>\<open>tmp\<close>.
\<close>

function unescape_loop :: "string \<Rightarrow> char \<Rightarrow> nat \<Rightarrow> string \<Rightarrow> error + (nat \<times> string)" where
  "unescape_loop substr last_char sbegin tmp =
     (case find_if_last cond last_char (drop sbegin substr) of
        (k, last_char') \<Rightarrow>
          if sbegin + k = length substr then Inr (sbegin, tmp)
          else if k = 0 then Inl Invalid_Range
          else unescape_loop substr last_char' (sbegin + k + 1)
                 (tmp @ take (k - 1) (drop sbegin substr) @ [dquote]))"
  by pat_completeness auto
termination
proof -
  have bound: "fst (find_if_last p l xs) \<le> length xs" for p l xs
  proof (induction xs arbitrary: l)
    case Nil
    show ?case by simp
  next
    case (Cons c cs)
    have "fst (find_if_last p c cs) \<le> length cs"
      by (rule Cons.IH)
    then show ?case
      by (simp add: case_prod_beta)
  qed
  have "k \<le> length xs" if "(k, l') = find_if_last p l xs" for k l' p l xs
    using bound [of p l xs] that by (metis fst_conv)
  then show ?thesis
    by (relation "measure (\<lambda>(substr, last_char, sbegin, tmp). length substr - sbegin)")
      (auto dest!: \<open>\<And>k l' p l xs. (k, l') = find_if_last p l xs \<Longrightarrow> k \<le> length xs\<close>)
qed

definition unescape :: "string \<Rightarrow> error + string" where
  "unescape substr =
     (case unescape_loop substr (CHR '' '') 0 [] of
        Inl e \<Rightarrow> Inl e
      | Inr (sbegin, tmp) \<Rightarrow>
          (let tmp1 = (if sbegin \<noteq> 0 then tmp @ drop sbegin substr else tmp)
           in Inr (if tmp1 \<noteq> [] then tmp1 else substr)))"

text \<open>
  \<^verbatim>\<open>primitive_variant result(ptype)\<close> followed by \<^verbatim>\<open>result.apply(from_string(substr))\<close>.
  The constructor (declared in the absent header) value-initialises the payload of the
  tag. The visitor reads a scalar from the token with the stream operator \<open>get\<close>,
  copies the token into a byte string, and has an empty body for the two wide strings,
  whose payload stays the empty string.
\<close>

fun from_string :: "(scalar_type \<Rightarrow> string \<Rightarrow> 'v) \<Rightarrow> primitive_type \<Rightarrow> string \<Rightarrow> 'v primitive_variant" where
  "from_string get (pt_scalar t) str = PV_scalar t (get t str)"
| "from_string get pt_u8string str = PV_u8string str"
| "from_string get pt_u16string str = PV_u16string []"
| "from_string get pt_u32string str = PV_u32string []"

text \<open>The first half of \<^verbatim>\<open>read_value\<close>: the cursor (moved behind an opening quote)
  and the iterator \<^verbatim>\<open>substr_end\<close>.\<close>

definition find_substr_end ::
  "end_access \<Rightarrow> primitive_type \<Rightarrow> string_deserializer \<Rightarrow> error + (string_deserializer \<times> nat)" where
  "find_substr_end md ptype s =
     (if ptype = pt_u8string
      then (case deref md s of
              Inl e \<Rightarrow> Inl e
            | Inr x \<Rightarrow>
                if x = dquote
                then (let s1 = s\<lparr>m_pos := m_pos s + 1\<rparr>
                      in Inr (s1, m_pos s1
                                + fst (find_if_last find_if_str_cond dquote (drop (m_pos s1) (m_str s1)))))
                else Inr (s, m_pos s + find_if find_if_cond (drop (m_pos s) (m_str s))))
      else Inr (s, m_pos s + find_if find_if_cond (drop (m_pos s) (m_str s))))"

definition read_value ::
  "end_access \<Rightarrow> (scalar_type \<Rightarrow> string \<Rightarrow> 'v) \<Rightarrow> primitive_type \<Rightarrow> string_deserializer
   \<Rightarrow> error + ('v primitive_variant \<times> string_deserializer)" where
  "read_value md get ptype s =
     (case integrity_check s of
        Inl e \<Rightarrow> Inl e
      | Inr _ \<Rightarrow>
     (case skip_space_and_comma md s of
        Inl e \<Rightarrow> Inl e
      | Inr s1 \<Rightarrow>
     (case find_substr_end md ptype s1 of
        Inl e \<Rightarrow> Inl e
      | Inr (s2, substr_end) \<Rightarrow>
          if substr_end = length (m_str s2)
          then Inl (Logic_Error ''malformed string (unterminated value)'')
          else
            (let substr = take (substr_end - m_pos s2) (drop (m_pos s2) (m_str s2));
                 s3 = s2\<lparr>m_pos := m_pos s2 + length substr\<rparr>
             in if ptype = pt_u8string
                then (case deref md s3 of
                        Inl e \<Rightarrow> Inl e
                      | Inr x \<Rightarrow>
                          if x \<noteq> dquote
                          then Inl (Logic_Error (''malformed string, expected '' @ [squote, dquote, squote]
                                                 @ '' found '' @ [squote, x, squote]))
                          else (case unescape substr of
                                  Inl e \<Rightarrow> Inl e
                                | Inr substr' \<Rightarrow>
                                    Inr (from_string get ptype substr', s3\<lparr>m_pos := m_pos s3 + 1\<rparr>)))
                else Inr (from_string get ptype substr, s3)))))"

text \<open>\<^verbatim>\<open>read_tuple\<close>: the loop reads one value per tag into the storage, in order.\<close>

fun read_values ::
  "end_access \<Rightarrow> (scalar_type \<Rightarrow> string \<Rightarrow> 'v) \<Rightarrow> primitive_type list \<Rightarrow> string_deserializer
   \<Rightarrow> error + ('v primitive_variant list \<times> string_deserializer)" where
  "read_values md get [] s = Inr ([], s)"
| "read_values md get (t # ts) s =
     (case read_value md get t s of
        Inl e \<Rightarrow> Inl e
      | Inr (v, s1) \<Rightarrow>
          (case read_values md get ts s1 of
             Inl e \<Rightarrow> Inl e
           | Inr (vs, s2) \<Rightarrow> Inr (v # vs, s2)))"

definition read_tuple ::
  "end_access \<Rightarrow> (scalar_type \<Rightarrow> string \<Rightarrow> 'v) \<Rightarrow> primitive_type list \<Rightarrow> string_deserializer
   \<Rightarrow> error + ('v primitive_variant list \<times> string_deserializer)" where
  "read_tuple md get tags s =
     (case integrity_check s of
        Inl e \<Rightarrow> Inl e
      | Inr _ \<Rightarrow>
          (case consume md (CHR ''{'') s of
             Inl e \<Rightarrow> Inl e
           | Inr s1 \<Rightarrow>
               (case read_values md get tags s1 of
                  Inl e \<Rightarrow> Inl e
                | Inr (vs, s2) \<Rightarrow>
                    (case consume md (CHR ''}'') s2 of
                       Inl e \<Rightarrow> Inl e
                     | Inr s3 \<Rightarrow> Inr (vs, s3)))))"

subsection \<open>Notions for the statements\<close>

text \<open>
  A separator is a character that
  \<^verbatim>\<open>skip_space_and_comma\<close> steps over, and \<open>separators_end\<close> is the position of
  the first character from the cursor on that is none, the end of the text when only
  separators are left.
\<close>

definition is_separator :: "char \<Rightarrow> bool" where
  "is_separator c = (c = CHR '' '' \<or> c = CHR '','')"

definition separators_end :: "string_deserializer \<Rightarrow> nat" where
  "separators_end s = m_pos s + find_if (\<lambda>c. \<not> is_separator c) (drop (m_pos s) (m_str s))"

text \<open>The text \<^verbatim>\<open>pt_writer\<close> puts between the quotes of a byte string.\<close>

definition escaped :: "string \<Rightarrow> string" where
  "escaped str = concat (map (\<lambda>c. if c = dquote then [backslash, dquote] else [c]) str)"

subsection \<open>The element count in the words of the spec\<close>

text \<open>
  The spec has \<^verbatim>\<open>begin_sequence\<close> scan ahead to the matching closing brace and count
  the commas up to it, plus one. \<open>matching_brace depth\<close> finds, in the text behind an
  opening brace, the brace that closes it, \<open>depth\<close> counting the braces opened since;
  \<open>spec_sequence_count\<close> is the count the spec describes. It is compared with the
  code's in claim C3.
\<close>

fun matching_brace :: "nat \<Rightarrow> string \<Rightarrow> nat" where
  "matching_brace depth [] = 0"
| "matching_brace depth (c # cs) =
     (if c = CHR ''}'' then (if depth = 0 then 0 else Suc (matching_brace (depth - 1) cs))
      else if c = CHR ''{'' then Suc (matching_brace (Suc depth) cs)
      else Suc (matching_brace depth cs))"

definition spec_sequence_count :: "string \<Rightarrow> nat" where
  "spec_sequence_count rest = count_list (take (matching_brace 0 rest) rest) (CHR '','') + 1"

section \<open>Properties of the writer\<close>

lemma clear_flags:
  "m_after_value (clear w) = False"
  "m_obj_just_opened (clear w) = (m_after_value w \<and> m_obj_just_opened w)"
  "m_open_objects (clear w) = m_open_objects w"
  by (simp_all add: clear_def)

lemma write_value_flags:
  "m_after_value (write_value put v w) = True"
  "m_obj_just_opened (write_value put v w) = (m_after_value w \<and> m_obj_just_opened w)"
  "m_open_objects (write_value put v w) = m_open_objects w"
  by (simp_all add: write_value_def Let_def clear_flags)

text \<open>What \<^verbatim>\<open>write_value\<close> appends depends on the two flags only, not on the text
  written so far.\<close>

lemma write_value_out:
  assumes "m_after_value w = m_after_value w'" "m_obj_just_opened w = m_obj_just_opened w'"
  shows "\<exists>b. out (write_value put v w) = out w @ b \<and> out (write_value put v w') = out w' @ b"
  using assms by (simp add: write_value_def Let_def clear_def)

lemma write_values_out:
  assumes "m_after_value w = m_after_value w'" "m_obj_just_opened w = m_obj_just_opened w'"
  shows "\<exists>b. out (write_values put vs w) = out w @ b
           \<and> out (write_values put vs w') = out w' @ b
           \<and> m_after_value (write_values put vs w) = m_after_value (write_values put vs w')
           \<and> m_obj_just_opened (write_values put vs w) = m_obj_just_opened (write_values put vs w')"
  using assms
proof (induction vs arbitrary: w w')
  case Nil
  then show ?case by simp
next
  case (Cons v vs)
  obtain b where b: "out (write_value put v w) = out w @ b" "out (write_value put v w') = out w' @ b"
    using write_value_out [OF Cons.prems] by blast
  have flags: "m_after_value (write_value put v w) = m_after_value (write_value put v w')"
    "m_obj_just_opened (write_value put v w) = m_obj_just_opened (write_value put v w')"
    using Cons.prems by (simp_all add: write_value_flags)
  obtain c where c: "out (write_values put vs (write_value put v w)) = out (write_value put v w) @ c"
    "out (write_values put vs (write_value put v w')) = out (write_value put v w') @ c"
    "m_after_value (write_values put vs (write_value put v w))
       = m_after_value (write_values put vs (write_value put v w'))"
    "m_obj_just_opened (write_values put vs (write_value put v w))
       = m_obj_just_opened (write_values put vs (write_value put v w'))"
    using Cons.IH [OF flags] by blast
  show ?case
    using b c by (intro exI [of _ "b @ c"]) simp
qed

lemma write_values_open_objects:
  "m_open_objects (write_values put vs w) = m_open_objects w"
  by (induction vs arbitrary: w) (simp_all add: write_value_flags)

text \<open>
  Claim C7, as the code has it. From the same writer state \<^verbatim>\<open>write_tuple\<close> and the
  sequence bracket write the same separator (that of \<^verbatim>\<open>clear\<close>), then two
  characters that differ, space and brace for the tuple, brace and space for the
  sequence, and then the same text up to and including the closing brace. They leave the
  writer with the same flags and counter.
\<close>

theorem C7_write_tuple_sequence_differ_in_opening:
  "\<exists>body. out (write_tuple put vs w) = out (clear w) @ '' {'' @ body
        \<and> out (write_sequence put vs w) = out (clear w) @ ''{ '' @ body
        \<and> m_after_value (write_tuple put vs w) = m_after_value (write_sequence put vs w)
        \<and> m_obj_just_opened (write_tuple put vs w) = m_obj_just_opened (write_sequence put vs w)
        \<and> m_open_objects (write_tuple put vs w) = m_open_objects (write_sequence put vs w)"
proof -
  let ?t = "(clear w)\<lparr>out := out (clear w) @ '' {''\<rparr>"
  let ?s = "(clear w)\<lparr>out := out (clear w) @ ''{ ''\<rparr>"
  have "m_after_value ?t = m_after_value ?s" "m_obj_just_opened ?t = m_obj_just_opened ?s"
    by simp_all
  then obtain b where b: "out (write_values put vs ?t) = out ?t @ b"
    "out (write_values put vs ?s) = out ?s @ b"
    "m_after_value (write_values put vs ?t) = m_after_value (write_values put vs ?s)"
    "m_obj_just_opened (write_values put vs ?t) = m_obj_just_opened (write_values put vs ?s)"
    using write_values_out [of ?t ?s put vs] by blast
  let ?close = "if m_after_value (write_values put vs ?s) then '' }'' else ''}''"
  have "out (write_tuple put vs w) = out (clear w) @ '' {'' @ (b @ ?close)"
    using b by (simp add: write_tuple_def Let_def)
  moreover have "out (write_sequence put vs w) = out (clear w) @ ''{ '' @ (b @ ?close)"
    using b by (simp add: write_sequence_def ser_begin_sequence_def ser_end_sequence_def Let_def)
  moreover have "m_after_value (write_tuple put vs w) = m_after_value (write_sequence put vs w)"
    "m_obj_just_opened (write_tuple put vs w) = m_obj_just_opened (write_sequence put vs w)"
    using b by (simp_all add: write_tuple_def write_sequence_def ser_begin_sequence_def
        ser_end_sequence_def Let_def)
  moreover have "m_open_objects (write_tuple put vs w) = m_open_objects (write_sequence put vs w)"
    by (simp add: write_tuple_def write_sequence_def ser_begin_sequence_def
        ser_end_sequence_def Let_def write_values_open_objects)
  ultimately show ?thesis
    by blast
qed

text \<open>
  Claim C7 as stated fails on a tuple of the two strings \<^verbatim>\<open>a\<close> and \<^verbatim>\<open>b\<close> written
  by the serializer just constructed: \<^verbatim>\<open>write_tuple\<close> gives \<^verbatim>\<open> {"a", "b" }\<close>, the
  sequence bracket \<^verbatim>\<open>{ "a", "b" }\<close>.
\<close>

theorem C7_write_tuple_same_text_counterexample:
  "out (write_tuple (\<lambda>t (x::unit). []) [PV_u8string ''a'', PV_u8string ''b''] string_serializer_init)
     = '' {'' @ [dquote] @ ''a'' @ [dquote] @ '', '' @ [dquote] @ ''b'' @ [dquote] @ '' }''
   \<and> out (write_sequence (\<lambda>t (x::unit). []) [PV_u8string ''a'', PV_u8string ''b''] string_serializer_init)
     = ''{ '' @ [dquote] @ ''a'' @ [dquote] @ '', '' @ [dquote] @ ''b'' @ [dquote] @ '' }''
   \<and> out (write_tuple (\<lambda>t (x::unit). []) [PV_u8string ''a'', PV_u8string ''b''] string_serializer_init)
     \<noteq> out (write_sequence (\<lambda>t (x::unit). []) [PV_u8string ''a'', PV_u8string ''b''] string_serializer_init)"
  by (simp add: write_tuple_def write_sequence_def ser_begin_sequence_def ser_end_sequence_def
      write_value_def clear_def string_serializer_init_def Let_def)

text \<open>
  The flag \<^verbatim>\<open>m_obj_just_opened\<close> is set by \<^verbatim>\<open>begin_object\<close> alone, and every
  call but \<^verbatim>\<open>end_sequence\<close> clears it. So after any list of calls on a fresh writer
  the flag implies that an object scope is open: when none is open, the flag is false.
\<close>

lemma write_values_just_opened:
  "m_obj_just_opened (write_values put vs w) \<Longrightarrow> m_obj_just_opened w"
proof (induction vs arbitrary: w)
  case Nil
  then show ?case by simp
next
  case (Cons v vs)
  have "m_obj_just_opened (write_value put v w)"
  proof (rule Cons.IH)
    show "m_obj_just_opened (write_values put vs (write_value put v w))"
      using Cons.prems by simp
  qed
  then show ?case
    by (simp add: write_value_flags)
qed

lemma ser_end_object_just_opened: "\<not> m_obj_just_opened (ser_end_object w)"
  by (simp add: ser_end_object_def Let_def)

lemma ser_call_just_opened:
  assumes "m_obj_just_opened w \<Longrightarrow> 0 < d"
    and "m_obj_just_opened (ser_apply put c w)"
  shows "0 < open_scopes [c] d"
proof (cases c)
  case (Begin_object type_name)
  then show ?thesis by simp
next
  case End_object
  then show ?thesis
    using assms(2) ser_end_object_just_opened [of w] by simp
next
  case (Begin_sequence n)
  then have "m_obj_just_opened w"
    using assms(2) by (simp add: ser_begin_sequence_def Let_def clear_flags)
  then show ?thesis
    using assms(1) Begin_sequence by simp
next
  case End_sequence
  then have "m_obj_just_opened w"
    using assms(2) by (simp add: ser_end_sequence_def)
  then show ?thesis
    using assms(1) End_sequence by simp
next
  case (Write_value v)
  then have "m_obj_just_opened w"
    using assms(2) by (simp add: write_value_flags)
  then show ?thesis
    using assms(1) Write_value by simp
next
  case (Write_tuple vs)
  then have "m_obj_just_opened (clear w)"
    using assms(2) write_values_just_opened [of put vs "(clear w)\<lparr>out := out (clear w) @ '' {''\<rparr>"]
    by (simp add: write_tuple_def Let_def)
  then have "m_obj_just_opened w"
    by (simp add: clear_flags)
  then show ?thesis
    using assms(1) Write_tuple by simp
qed

lemma open_scopes_step: "open_scopes (c # cs) d = open_scopes cs (open_scopes [c] d)"
  by (cases c) simp_all

lemma just_opened_scope_open:
  assumes "m_obj_just_opened w \<Longrightarrow> 0 < d"
    and "m_obj_just_opened (ser_calls put cs w)"
  shows "0 < open_scopes cs d"
  using assms
proof (induction cs arbitrary: w d)
  case Nil
  then show ?case by simp
next
  case (Cons c cs)
  have "0 < open_scopes cs (open_scopes [c] d)"
  proof (rule Cons.IH)
    show "m_obj_just_opened (ser_calls put cs (ser_apply put c w))"
      using Cons.prems(2) by simp
    show "0 < open_scopes [c] d" if "m_obj_just_opened (ser_apply put c w)"
      using Cons.prems(1) that by (rule ser_call_just_opened)
  qed
  then show ?case
    by (simp add: open_scopes_step [of c cs])
qed

lemma no_open_scope_not_just_opened:
  "open_scopes cs 0 = 0 \<Longrightarrow> \<not> m_obj_just_opened (ser_calls put cs string_serializer_init)"
  using just_opened_scope_open [of string_serializer_init 0 put cs]
  by (auto simp: string_serializer_init_def)

lemma end_object_no_open_scope:
  assumes "open_scopes cs 0 = 0"
  shows "ser_end_object (ser_calls put cs string_serializer_init) =
           (ser_calls put cs string_serializer_init)
             \<lparr>out := out (ser_calls put cs string_serializer_init)
                      @ (if m_after_value (ser_calls put cs string_serializer_init)
                         then '' )'' else '')''),
              m_after_value := True\<rparr>"
  using no_open_scope_not_just_opened [OF assms, of put]
  by (simp add: ser_end_object_def)

text \<open>
  Claim C8, as the code has it. \<^verbatim>\<open>string_serializer::end_object\<close> holds no check and
  no \<^verbatim>\<open>throw\<close>: the counter \<^verbatim>\<open>m_open_objects\<close> is incremented by
  \<^verbatim>\<open>begin_object\<close> and read nowhere. Called in a state where no object scope is open,
  be it that none was ever opened or that all were closed, the flag
  \<^verbatim>\<open>m_obj_just_opened\<close> is false (lemma \<open>no_open_scope_not_just_opened\<close>), and
  \<^verbatim>\<open>end_object\<close> returns normally: it appends a closing parenthesis, with a space in
  front of it after a value, and sets \<^verbatim>\<open>m_after_value\<close>.
\<close>

theorem C8_end_object_unopened_emits:
  assumes "\<not> m_obj_just_opened w"
  shows "ser_end_object w =
           w\<lparr>out := out w @ (if m_after_value w then '' )'' else '')''), m_after_value := True\<rparr>"
  using assms by (simp add: ser_end_object_def)

text \<open>The fresh writer, and the writer after \<^verbatim>\<open>begin_object\<close> and \<^verbatim>\<open>end_object\<close>,
  where no scope is open and the counter is 1: a further \<^verbatim>\<open>end_object\<close> appends the
  parenthesis.\<close>

theorem C8_end_object_unopened_emits_witness:
  "\<not> m_obj_just_opened string_serializer_init
   \<and> ser_end_object string_serializer_init =
       \<lparr>out = '')'', m_open_objects = 0, m_after_value = True, m_obj_just_opened = False\<rparr>
   \<and> ser_end_object (ser_begin_object ''Foo'' string_serializer_init) =
       \<lparr>out = ''Foo'', m_open_objects = 1, m_after_value = True, m_obj_just_opened = False\<rparr>
   \<and> ser_end_object (ser_end_object (ser_begin_object ''Foo'' string_serializer_init)) =
       \<lparr>out = ''Foo )'', m_open_objects = 1, m_after_value = True, m_obj_just_opened = False\<rparr>"
  using C8_end_object_unopened_emits [of string_serializer_init]
    C8_end_object_unopened_emits [of "ser_end_object (ser_begin_object ''Foo'' string_serializer_init)"]
  by (simp add: string_serializer_init_def ser_end_object_def ser_begin_object_def clear_def Let_def)

text \<open>
  Claim C8 as stated fails on the serializer just constructed, where no object scope is
  open: \<^verbatim>\<open>end_object\<close> does emit output, the text \<^verbatim>\<open>)\<close>.
\<close>

theorem C8_end_object_fails_counterexample:
  "m_open_objects string_serializer_init = 0
   \<and> out (ser_end_object string_serializer_init) = '')''
   \<and> out (ser_end_object string_serializer_init) \<noteq> out string_serializer_init"
  by (simp add: ser_end_object_def string_serializer_init_def)

section \<open>Properties of the reader\<close>

subsection \<open>Scanning and the cursor\<close>

lemma find_if_le: "find_if P xs \<le> length xs"
  by (induction xs) auto

lemma find_if_less_nth: "find_if P xs < length xs \<Longrightarrow> P (xs ! find_if P xs)"
  by (induction xs) (auto split: if_splits)

lemma find_if_take: "list_all (\<lambda>x. \<not> P x) (take (find_if P xs) xs)"
  by (induction xs) auto

lemma find_if_eq_length: "find_if P xs = length xs \<longleftrightarrow> list_all (\<lambda>x. \<not> P x) xs"
  by (induction xs) auto

lemma separators_end_step:
  assumes "m_pos s < length (m_str s)"
  shows "separators_end s =
           (if is_separator (m_str s ! m_pos s) then separators_end (s\<lparr>m_pos := m_pos s + 1\<rparr>)
            else m_pos s)"
  using assms by (simp add: separators_end_def Cons_nth_drop_Suc [symmetric])

lemma separators_end_past: "length (m_str s) \<le> m_pos s \<Longrightarrow> separators_end s = m_pos s"
  by (simp add: separators_end_def)

lemma skip_space_and_comma_eq:
  "skip_space_and_comma md s =
     (if separators_end s < length (m_str s)
         \<or> (separators_end s = length (m_str s) \<and> md = Reads_Terminator)
      then Inr (s\<lparr>m_pos := separators_end s\<rparr>) else Inl Out_Of_Bounds)"
proof (induction md s rule: skip_space_and_comma.induct)
  case (1 md s)
  show ?case
  proof (cases "m_pos s < length (m_str s)")
    case True
    then have d: "deref md s = Inr (m_str s ! m_pos s)"
      by (simp add: deref_def)
    show ?thesis
    proof (cases "is_separator (m_str s ! m_pos s)")
      case sep: True
      then have "skip_space_and_comma md s = skip_space_and_comma md (s\<lparr>m_pos := m_pos s + 1\<rparr>)"
        using d by (simp add: is_separator_def)
      also have "\<dots> = (if separators_end (s\<lparr>m_pos := m_pos s + 1\<rparr>) < length (m_str s)
         \<or> (separators_end (s\<lparr>m_pos := m_pos s + 1\<rparr>) = length (m_str s) \<and> md = Reads_Terminator)
         then Inr (s\<lparr>m_pos := separators_end (s\<lparr>m_pos := m_pos s + 1\<rparr>)\<rparr>) else Inl Out_Of_Bounds)"
        using "1.IH" [OF d] sep by (simp add: is_separator_def)
      finally show ?thesis
        using separators_end_step [OF True] sep by simp
    next
      case False
      then show ?thesis
        using d True separators_end_step [OF True] by (simp add: is_separator_def)
    qed
  next
    case False
    then show ?thesis
      using separators_end_past [of s] by (auto simp: deref_def)
  qed
qed


declare skip_space_and_comma.simps [simp del]
declare unescape_loop.simps [simp del]

lemma find_if_drop: "find_if P (drop (find_if P xs) xs) = 0"
  by (induction xs) auto

lemma find_if_takeWhile: "take (find_if P xs) xs = takeWhile (\<lambda>x. \<not> P x) xs"
  by (induction xs) auto

lemma separators_end_ge: "m_pos s \<le> separators_end s"
  by (simp add: separators_end_def)

lemma separators_end_le: "m_pos s \<le> length (m_str s) \<Longrightarrow> separators_end s \<le> length (m_str s)"
  using find_if_le [of "\<lambda>c. \<not> is_separator c" "drop (m_pos s) (m_str s)"]
  by (simp add: separators_end_def)

lemma separators_end_idem: "separators_end (s\<lparr>m_pos := separators_end s\<rparr>) = separators_end s"
  using find_if_drop [of "\<lambda>c. \<not> is_separator c" "drop (m_pos s) (m_str s)"]
  by (simp add: separators_end_def add.commute)

lemma separators_end_not_separator:
  "separators_end s < length (m_str s) \<Longrightarrow> \<not> is_separator (m_str s ! separators_end s)"
  using find_if_less_nth [of "\<lambda>c. \<not> is_separator c" "drop (m_pos s) (m_str s)"]
  by (simp add: separators_end_def)

lemma skip_space_and_comma_Inr:
  "skip_space_and_comma md s = Inr s1 \<Longrightarrow> s1 = s\<lparr>m_pos := separators_end s\<rparr>"
  by (simp add: skip_space_and_comma_eq split: if_splits)

lemma skip_space_and_comma_idem:
  assumes "skip_space_and_comma md s = Inr s1"
  shows "skip_space_and_comma md s1 = Inr s1"
proof -
  have s1: "s1 = s\<lparr>m_pos := separators_end s\<rparr>"
    using assms by (rule skip_space_and_comma_Inr)
  have "separators_end s1 = separators_end s"
    unfolding s1 by (rule separators_end_idem)
  then show ?thesis
    using assms by (simp add: skip_space_and_comma_eq s1 split: if_splits)
qed

lemma next_delimiter_le:
  "m_pos s \<le> length (m_str s) \<Longrightarrow> next_delimiter s \<le> length (m_str s)"
  using find_if_le [of is_delimiter "drop (m_pos s) (m_str s)"]
  by (simp add: next_delimiter_def)

lemma next_delimiter_ge: "m_pos s \<le> next_delimiter s"
  by (simp add: next_delimiter_def)

lemma find_if_last_le: "fst (find_if_last p l xs) \<le> length xs"
proof (induction xs arbitrary: l)
  case Nil
  show ?case by simp
next
  case (Cons c cs)
  have "fst (find_if_last p c cs) \<le> length cs"
    by (rule Cons.IH)
  then show ?case
    by (simp add: case_prod_beta)
qed

lemma deref_in_text:
  "m_pos s < length (m_str s) \<Longrightarrow> deref md s = Inr (m_str s ! m_pos s)"
  by (simp add: deref_def)

lemma deref_at_end:
  "m_pos s = length (m_str s) \<Longrightarrow> deref Reads_Terminator s = Inr nul"
  by (simp add: deref_def)

lemma consume_in_text:
  assumes "separators_end s < length (m_str s)"
  shows "consume md c s =
           (if m_str s ! separators_end s \<noteq> c
            then throw_malformed (''expected '' @ [squote, c, squote] @ '' found ''
                                  @ [squote, m_str s ! separators_end s, squote])
            else Inr (s\<lparr>m_pos := separators_end s + 1\<rparr>))"
  using assms by (simp add: consume_def skip_space_and_comma_eq deref_in_text)

lemma consume_at_end:
  assumes "separators_end s = length (m_str s)"
  shows "consume Reads_Terminator c s =
           (if nul \<noteq> c
            then throw_malformed (''expected '' @ [squote, c, squote] @ '' found '' @ [squote, nul, squote])
            else Inr (s\<lparr>m_pos := separators_end s + 1\<rparr>))"
  using assms by (simp add: consume_def skip_space_and_comma_eq deref_at_end)

lemma try_consume_in_text:
  assumes "separators_end s < length (m_str s)"
  shows "try_consume md c s =
           (if m_str s ! separators_end s = c then Inr (True, s\<lparr>m_pos := separators_end s + 1\<rparr>)
            else Inr (False, s\<lparr>m_pos := separators_end s\<rparr>))"
  using assms by (simp add: try_consume_def skip_space_and_comma_eq deref_in_text)

lemma try_consume_at_end:
  assumes "separators_end s = length (m_str s)"
  shows "try_consume Reads_Terminator c s =
           (if nul = c then Inr (True, s\<lparr>m_pos := separators_end s + 1\<rparr>)
            else Inr (False, s\<lparr>m_pos := separators_end s\<rparr>))"
  using assms by (simp add: try_consume_def skip_space_and_comma_eq deref_at_end)

lemma separators_end_eq_length:
  assumes "m_pos s \<le> length (m_str s)"
  shows "separators_end s = length (m_str s) \<longleftrightarrow> list_all is_separator (drop (m_pos s) (m_str s))"
  using assms find_if_eq_length [of "\<lambda>c. \<not> is_separator c" "drop (m_pos s) (m_str s)"]
  by (auto simp: separators_end_def)

lemma consume_pos_le:
  assumes "m_pos s \<le> length (m_str s)" and "c \<noteq> nul" and "consume Reads_Terminator c s = Inr s1"
  shows "m_pos s1 \<le> length (m_str s1)"
proof (cases "separators_end s < length (m_str s)")
  case True
  then show ?thesis
    using assms(3) by (auto simp: consume_in_text throw_malformed_def split: if_splits)
next
  case False
  then have "separators_end s = length (m_str s)"
    using separators_end_le [OF assms(1)] by simp
  then show ?thesis
    using assms(2,3) by (auto simp: consume_at_end throw_malformed_def split: if_splits)
qed

lemma separators_end_other_fields [simp]:
  "separators_end (s\<lparr>m_obj_count := n\<rparr>) = separators_end s"
  "separators_end (s\<lparr>m_obj_had_left_parenthesis := st\<rparr>) = separators_end s"
  by (simp_all add: separators_end_def)

lemma find_if_cond_not_dquote: "find_if_cond c \<Longrightarrow> c \<noteq> dquote"
  by (auto simp: find_if_cond_def)

lemma token_end_cases:
  assumes "p \<le> length str"
  shows "p + find_if P (drop p str) = length str
         \<or> (p + find_if P (drop p str) < length str \<and> P (str ! (p + find_if P (drop p str))))"
proof -
  have "find_if P (drop p str) \<le> length (drop p str)"
    by (rule find_if_le)
  moreover have "find_if P (drop p str) < length (drop p str)
      \<Longrightarrow> P (drop p str ! find_if P (drop p str))"
    by (rule find_if_less_nth)
  ultimately show ?thesis
    using assms by (auto simp: le_less)
qed

subsection \<open>The claims about the reader\<close>

text \<open>
  Claim C1 fails on the code for a byte string that ends in a backslash. The writer
  escapes the double quote and leaves the backslash as it is, so the backslash at the end
  and the closing quote read as an escaped quote. The string of the single character
  backslash, written as the one field of an object \<^verbatim>\<open>@str\<close>, gives the name and
  in parentheses the three characters quote, backslash, quote; the reader finds the name
  and the parenthesis, and then
  \<^verbatim>\<open>read_value\<close> runs to the end of the text without finding the closing quote and
  raises the unterminated-value error.
\<close>

theorem C1_trailing_backslash_not_read_back:
  "out (ser_end_object (write_value put (PV_u8string [backslash])
          (ser_begin_object ''@str'' string_serializer_init)))
     = ''@str ( '' @ [dquote, backslash, dquote] @ '' )''
   \<and> seek_object Reads_Terminator
         (string_deserializer_init (''@str ( '' @ [dquote, backslash, dquote] @ '' )''))
     = Inr (''@str'', \<lparr>m_str = ''@str ( '' @ [dquote, backslash, dquote] @ '' )'', m_pos = 4,
                        m_obj_count = 0, m_obj_had_left_parenthesis = []\<rparr>)
   \<and> des_begin_object Reads_Terminator ''@str''
         \<lparr>m_str = ''@str ( '' @ [dquote, backslash, dquote] @ '' )'', m_pos = 4,
          m_obj_count = 0, m_obj_had_left_parenthesis = []\<rparr>
     = Inr \<lparr>m_str = ''@str ( '' @ [dquote, backslash, dquote] @ '' )'', m_pos = 6,
            m_obj_count = 1, m_obj_had_left_parenthesis = [True]\<rparr>
   \<and> read_value Reads_Terminator get pt_u8string
         \<lparr>m_str = ''@str ( '' @ [dquote, backslash, dquote] @ '' )'', m_pos = 6,
          m_obj_count = 1, m_obj_had_left_parenthesis = [True]\<rparr>
     = Inl (Logic_Error ''malformed string (unterminated value)'')"
  by (simp add: ser_end_object_def write_value_def ser_begin_object_def clear_def
      string_serializer_init_def string_deserializer_init_def Let_def
      seek_object_def skip_space_and_comma_eq separators_end_def is_separator_def
      next_delimiter_def is_delimiter_def des_begin_object_def try_consume_in_text
      read_value_def integrity_check_def find_substr_end_def deref_def find_if_str_cond_def)

text \<open>With a second string behind it, the string of the two characters \<^verbatim>\<open>a\<close> and
  backslash is read back as another value: the reader takes the text up to the opening
  quote of the second string.\<close>

lemma trailing_backslash_wrong_value:
  "out (write_values put [PV_u8string (''a'' @ [backslash]), PV_u8string ''b'']
          \<lparr>out = ''Foo'', m_open_objects = 1, m_after_value = False, m_obj_just_opened = True\<rparr>)
     = ''Foo ( '' @ [dquote, CHR ''a'', backslash, dquote] @ '', '' @ [dquote, CHR ''b'', dquote]
   \<and> read_value Reads_Terminator get pt_u8string
         \<lparr>m_str = ''Foo ( '' @ [dquote, CHR ''a'', backslash, dquote] @ '', ''
                    @ [dquote, CHR ''b'', dquote] @ '' )'',
          m_pos = 5, m_obj_count = 1, m_obj_had_left_parenthesis = [True]\<rparr>
     = Inr (PV_u8string (''a'' @ [dquote] @ '', ''),
            \<lparr>m_str = ''Foo ( '' @ [dquote, CHR ''a'', backslash, dquote] @ '', ''
                    @ [dquote, CHR ''b'', dquote] @ '' )'',
          m_pos = 13, m_obj_count = 1, m_obj_had_left_parenthesis = [True]\<rparr>)"
  by (simp add: write_value_def clear_def Let_def
      skip_space_and_comma_eq separators_end_def is_separator_def
      read_value_def integrity_check_def find_substr_end_def deref_def find_if_str_cond_def
      unescape_def unescape_loop.simps cond_def)

lemma pt_writer_u8string: "pt_writer put (PV_u8string str) = dquote # escaped str @ [dquote]"
  by (simp add: escaped_def)

lemma escaped_simps [simp]:
  "escaped [] = []"
  "escaped (c # cs) = (if c = dquote then backslash # dquote # escaped cs else c # escaped cs)"
  "escaped (xs @ ys) = escaped xs @ escaped ys"
  by (simp_all add: escaped_def)

lemma escaped_no_quote: "dquote \<notin> set xs \<Longrightarrow> escaped xs = xs"
  by (induction xs) auto

text \<open>The scan for the closing quote runs over the escaped text and stops at the quote
  behind it, unless a backslash stands in front of that quote.\<close>

lemma closing_quote_found:
  assumes "if x = [] then l \<noteq> backslash else last x \<noteq> backslash"
  shows "fst (find_if_last find_if_str_cond l (escaped x @ dquote # rest)) = length (escaped x)"
  using assms
proof (induction x arbitrary: l)
  case Nil
  then show ?case
    by (simp add: find_if_str_cond_def)
next
  case (Cons c cs)
  have tail: "if cs = [] then c \<noteq> backslash else last cs \<noteq> backslash"
    using Cons.prems by (simp split: if_splits)
  show ?case
  proof (cases "c = dquote")
    case True
    have "if cs = [] then dquote \<noteq> backslash else last cs \<noteq> backslash"
      using tail by (simp split: if_splits)
    from Cons.IH [OF this] True show ?thesis
      by (simp add: find_if_str_cond_def case_prod_beta)
  next
    case False
    from Cons.IH [OF tail] False show ?thesis
      by (simp add: find_if_str_cond_def case_prod_beta)
  qed
qed

lemma cond_scan_no_quote:
  "dquote \<notin> set seg \<Longrightarrow> fst (find_if_last cond l seg) = length seg"
  by (induction seg arbitrary: l) (auto simp: cond_def case_prod_beta)

lemma cond_scan_first_quote:
  "dquote \<notin> set seg \<Longrightarrow>
     find_if_last cond l (seg @ backslash # dquote # ys) = (Suc (length seg), backslash)"
  by (induction seg arbitrary: l) (auto simp: cond_def)

lemma unescape_loop_escaped:
  "\<exists>sb tmp'. unescape_loop (pre @ escaped x) l (length pre) tmp = Inr (sb, tmp')
      \<and> tmp' @ drop sb (pre @ escaped x) = tmp @ x
      \<and> (if dquote \<in> set x then length pre < sb else sb = length pre \<and> tmp' = tmp)"
proof (induction x arbitrary: pre l tmp rule: length_induct)
  case (1 x)
  show ?case
  proof (cases "dquote \<in> set x")
    case False
    then have "fst (find_if_last cond l (escaped x)) = length x"
      by (simp add: escaped_no_quote cond_scan_no_quote)
    then obtain l' where "find_if_last cond l (escaped x) = (length x, l')"
      by (cases "find_if_last cond l (escaped x)") simp
    then have "unescape_loop (pre @ escaped x) l (length pre) tmp = Inr (length pre, tmp)"
      using False by (subst unescape_loop.simps) (simp add: escaped_no_quote)
    then show ?thesis
      using False by (simp add: escaped_no_quote)
  next
    case True
    then obtain seg x' where x: "x = seg @ dquote # x'" and seg: "dquote \<notin> set seg"
      by (meson split_list_first)
    let ?pre = "pre @ seg @ [backslash, dquote]"
    define S where "S = pre @ escaped x"
    have S: "S = ?pre @ escaped x'"
      using seg by (simp add: S_def x escaped_no_quote)
    have dropS: "drop (length pre) S = seg @ backslash # dquote # escaped x'"
      by (simp add: S)
    have scan: "find_if_last cond l (drop (length pre) S) = (Suc (length seg), backslash)"
      unfolding dropS using seg by (rule cond_scan_first_quote)
    have "unescape_loop S l (length pre) tmp
            = unescape_loop S backslash (length pre + Suc (length seg) + 1)
                (tmp @ take (Suc (length seg) - 1) (drop (length pre) S) @ [dquote])"
      by (subst unescape_loop.simps) (simp add: scan, simp add: S)
    also have "take (Suc (length seg) - 1) (drop (length pre) S) = seg"
      by (simp add: dropS)
    also have "length pre + Suc (length seg) + 1 = length ?pre"
      by simp
    finally have step: "unescape_loop S l (length pre) tmp
                  = unescape_loop S backslash (length ?pre) (tmp @ seg @ [dquote])" .
    have "length x' < length x"
      by (simp add: x)
    with "1.IH" obtain sb tmp' where
      r: "unescape_loop (?pre @ escaped x') backslash (length ?pre) (tmp @ seg @ [dquote]) = Inr (sb, tmp')"
      and t: "tmp' @ drop sb (?pre @ escaped x') = (tmp @ seg @ [dquote]) @ x'"
      and b: "if dquote \<in> set x' then length ?pre < sb else sb = length ?pre \<and> tmp' = tmp @ seg @ [dquote]"
      by blast
    have "length pre < sb"
      using b by (simp split: if_splits)
    moreover have "unescape_loop S l (length pre) tmp = Inr (sb, tmp')"
      using step r unfolding S by simp
    then have "unescape_loop (pre @ escaped x) l (length pre) tmp = Inr (sb, tmp')"
      by (simp only: S_def)
    moreover have "tmp' @ drop sb S = tmp @ x"
      using t unfolding S by (simp add: x)
    then have "tmp' @ drop sb (pre @ escaped x) = tmp @ x"
      by (simp only: S_def)
    ultimately show ?thesis
      using True by simp
  qed
qed

lemma unescape_escaped: "unescape (escaped x) = Inr x"
proof -
  from unescape_loop_escaped [of "[]" x "CHR '' ''" "[]"]
  obtain sb tmp' where r: "unescape_loop (escaped x) (CHR '' '') 0 [] = Inr (sb, tmp')"
    and t: "tmp' @ drop sb (escaped x) = x"
    and b: "if dquote \<in> set x then length ([]::string) < sb else sb = length ([]::string) \<and> tmp' = []"
    by auto
  show ?thesis
  proof (cases "dquote \<in> set x")
    case True
    then have "x \<noteq> []" by auto
    then show ?thesis
      using True r t b by (auto simp: unescape_def)
  next
    case False
    then show ?thesis
      using r t b by (simp add: unescape_def escaped_no_quote)
  qed
qed


text \<open>
  What does hold of the round trip of byte strings: in an open object with fields, when
  the text behind the separators is what \<^verbatim>\<open>write_value\<close> wrote for the string
  \<open>x\<close>, and \<open>x\<close> is empty or ends in another character than the backslash,
  \<^verbatim>\<open>read_value\<close> returns \<open>x\<close> and leaves the cursor behind the closing quote,
  whatever follows. Embedded quotes and backslashes elsewhere in the string are read
  back.
\<close>

lemma string_round_trip:
  assumes "m_obj_had_left_parenthesis s \<noteq> []" and "hd (m_obj_had_left_parenthesis s)"
    and rendered: "drop (separators_end s) (m_str s) = pt_writer put (PV_u8string x) @ rest"
    and no_backslash: "x = [] \<or> last x \<noteq> backslash"
  shows "read_value md get pt_u8string s =
           Inr (PV_u8string x,
                s\<lparr>m_pos := separators_end s + length (pt_writer put (PV_u8string x))\<rparr>)"
proof -
  let ?p = "separators_end s"
  let ?n = "length (escaped x)"
  have pw: "pt_writer put (PV_u8string x) = dquote # escaped x @ [dquote]"
    by (rule pt_writer_u8string)
  have dropp: "drop ?p (m_str s) = dquote # escaped x @ dquote # rest"
    using rendered unfolding pw by simp
  have len: "length (m_str s) = ?p + ?n + 2 + length rest" and p: "?p < length (m_str s)"
    using arg_cong [OF dropp, of length] by (simp_all split: if_splits)
  have at_p: "m_str s ! ?p = dquote"
    using nth_via_drop [OF dropp] by simp
  have drop1: "drop (Suc ?p) (m_str s) = escaped x @ dquote # rest"
    using arg_cong [OF dropp, of tl] by (simp add: drop_Suc tl_drop)
  have at_close: "m_str s ! (Suc (?p + ?n)) = dquote"
  proof -
    have "drop (Suc (?p + ?n)) (m_str s) = drop ?n (drop (Suc ?p) (m_str s))"
      by (simp add: add.commute)
    also have "\<dots> = dquote # rest"
      by (simp add: drop1)
    finally show ?thesis
      by (rule nth_via_drop)
  qed
  have skip: "skip_space_and_comma md s = Inr (s\<lparr>m_pos := ?p\<rparr>)"
    using p by (simp add: skip_space_and_comma_eq)
  have scan: "fst (find_if_last find_if_str_cond dquote (escaped x @ dquote # rest)) = ?n"
    using no_backslash by (intro closing_quote_found) auto
  have fse: "find_substr_end md pt_u8string (s\<lparr>m_pos := ?p\<rparr>)
               = Inr (s\<lparr>m_pos := Suc ?p\<rparr>, Suc ?p + ?n)"
    using p at_p by (simp add: find_substr_end_def deref_in_text Let_def drop1 scan)
  have substr: "take ?n (drop (Suc ?p) (m_str s)) = escaped x"
    by (simp add: drop1)
  have deref_close: "deref md (s\<lparr>m_pos := Suc (?p + ?n)\<rparr>) = Inr dquote"
    using len at_close by (simp add: deref_in_text)
  show ?thesis
    unfolding pw using assms(1,2) len
    by (simp add: read_value_def integrity_check_def skip fse Let_def substr deref_close
        unescape_escaped)
qed

text \<open>
  Claim C2. Writer: \<^verbatim>\<open>begin_object\<close> followed at once by \<^verbatim>\<open>end_object\<close> appends,
  behind the separator \<^verbatim>\<open>clear\<close> writes for what came before, the type name and
  nothing else, no parenthesis. Reader: when the next character behind the separators is
  no opening parenthesis (or the text ends there), \<^verbatim>\<open>begin_object\<close> succeeds,
  steps over the separators only and pushes \<open>False\<close>; \<^verbatim>\<open>end_object\<close> called next
  consumes nothing and pops the flag, so that it gives back the state before
  \<^verbatim>\<open>begin_object\<close> but for the skipped separators. It fails only as claim C4 says:
  when this object was the outermost one and text is left.
\<close>

theorem C2_void_object:
  assumes "m_pos s \<le> length (m_str s)"
    and "separators_end s = length (m_str s) \<or> m_str s ! separators_end s \<noteq> CHR ''(''"
  shows "out (ser_end_object (ser_begin_object type_name w)) = out (clear w) @ type_name
    \<and> des_begin_object Reads_Terminator type_name s =
        Inr (s\<lparr>m_pos := separators_end s, m_obj_count := m_obj_count s + 1,
                m_obj_had_left_parenthesis := False # m_obj_had_left_parenthesis s\<rparr>)
    \<and> des_end_object Reads_Terminator
          (s\<lparr>m_pos := separators_end s, m_obj_count := m_obj_count s + 1,
              m_obj_had_left_parenthesis := False # m_obj_had_left_parenthesis s\<rparr>) =
        (if m_obj_count s = 0 \<and> separators_end s < length (m_str s)
         then throw_malformed ''expected end of of string''
         else Inr (s\<lparr>m_pos := separators_end s\<rparr>))"
proof (intro conjI)
  show "out (ser_end_object (ser_begin_object type_name w)) = out (clear w) @ type_name"
    by (simp add: ser_end_object_def ser_begin_object_def Let_def)
next
  let ?s0 = "s\<lparr>m_obj_count := m_obj_count s + 1\<rparr>"
  let ?s1 = "?s0\<lparr>m_pos := separators_end s\<rparr>"
  have le: "separators_end s \<le> length (m_str s)"
    by (rule separators_end_le [OF assms(1)])
  have skip: "skip_space_and_comma Reads_Terminator ?s0 = Inr ?s1"
    using le by (auto simp: skip_space_and_comma_eq)
  have sep1: "separators_end ?s1 = separators_end s"
    using separators_end_idem [of s] by (simp add: separators_end_def)
  have "try_consume Reads_Terminator (CHR ''('') ?s1 = Inr (False, ?s1)"
  proof (cases "separators_end s < length (m_str s)")
    case True
    then show ?thesis
      using assms(2) sep1 by (simp add: try_consume_in_text)
  next
    case False
    then have "separators_end ?s1 = length (m_str ?s1)"
      using le sep1 by simp
    then show ?thesis
      using sep1 try_consume_at_end [of ?s1 "CHR ''(''"] by simp
  qed
  then show "des_begin_object Reads_Terminator type_name s =
        Inr (s\<lparr>m_pos := separators_end s, m_obj_count := m_obj_count s + 1,
                m_obj_had_left_parenthesis := False # m_obj_had_left_parenthesis s\<rparr>)"
    using skip by (simp add: des_begin_object_def)
next
  let ?s2 = "s\<lparr>m_pos := separators_end s, m_obj_count := m_obj_count s + 1,
              m_obj_had_left_parenthesis := False # m_obj_had_left_parenthesis s\<rparr>"
  have le: "separators_end s \<le> length (m_str s)"
    by (rule separators_end_le [OF assms(1)])
  have sep: "separators_end (s\<lparr>m_pos := separators_end s, m_obj_count := 0\<rparr>) = separators_end s"
    using separators_end_idem [of s] by (simp add: separators_end_def)
  show "des_end_object Reads_Terminator ?s2 =
        (if m_obj_count s = 0 \<and> separators_end s < length (m_str s)
         then throw_malformed ''expected end of of string''
         else Inr (s\<lparr>m_pos := separators_end s\<rparr>))"
    using le sep by (auto simp: des_end_object_def Let_def skip_space_and_comma_eq)
qed

text \<open>The object \<^verbatim>\<open>Foo\<close> without fields: the fresh writer renders it as
  \<^verbatim>\<open>Foo\<close>, and the reader takes that text through \<^verbatim>\<open>seek_object\<close>,
  \<^verbatim>\<open>begin_object\<close> and \<^verbatim>\<open>end_object\<close>.\<close>

theorem C2_void_object_witness:
  "out (ser_end_object (ser_begin_object ''Foo'' string_serializer_init)) = ''Foo''
   \<and> seek_object Reads_Terminator (string_deserializer_init ''Foo'') =
       Inr (''Foo'', \<lparr>m_str = ''Foo'', m_pos = 3, m_obj_count = 0, m_obj_had_left_parenthesis = []\<rparr>)
   \<and> des_begin_object Reads_Terminator ''Foo''
        \<lparr>m_str = ''Foo'', m_pos = 3, m_obj_count = 0, m_obj_had_left_parenthesis = []\<rparr> =
       Inr \<lparr>m_str = ''Foo'', m_pos = 3, m_obj_count = 1, m_obj_had_left_parenthesis = [False]\<rparr>
   \<and> des_end_object Reads_Terminator
        \<lparr>m_str = ''Foo'', m_pos = 3, m_obj_count = 1, m_obj_had_left_parenthesis = [False]\<rparr> =
       Inr \<lparr>m_str = ''Foo'', m_pos = 3, m_obj_count = 0, m_obj_had_left_parenthesis = []\<rparr>"
  using C2_void_object [of
      "\<lparr>m_str = ''Foo'', m_pos = 3, m_obj_count = 0, m_obj_had_left_parenthesis = []\<rparr>"
      "''Foo''" string_serializer_init]
  by (simp add: separators_end_def seek_object_def skip_space_and_comma_eq next_delimiter_def
      is_delimiter_def is_separator_def string_deserializer_init_def string_serializer_init_def
      clear_def Let_def)

text \<open>
  Claim C3, as the code has it. In an open object with fields (the stack is not empty
  and its top is true), with the next character behind the separators an opening brace,
  \<^verbatim>\<open>begin_sequence\<close> consumes the brace and returns one more than the number of
  commas between the brace and the first closing brace behind it (the end of the text
  when there is none). \<^verbatim>\<open>std::find\<close> stops at the first closing brace, whether or not
  it matches.
\<close>

theorem C3_begin_sequence_first_brace:
  assumes "m_obj_had_left_parenthesis s \<noteq> []" and "hd (m_obj_had_left_parenthesis s)"
    and "separators_end s < length (m_str s)" and "m_str s ! separators_end s = CHR ''{''"
  shows "des_begin_sequence md s =
           Inr (count_list (takeWhile (\<lambda>c. c \<noteq> CHR ''}'') (drop (separators_end s + 1) (m_str s)))
                  (CHR '','') + 1,
                s\<lparr>m_pos := separators_end s + 1\<rparr>)"
  using assms
  by (simp add: des_begin_sequence_def integrity_check_def consume_in_text Let_def find_if_takeWhile)

text \<open>The two inputs the claim names: \<^verbatim>\<open>{ 1, 2, 3 }\<close> gives 3, the empty body
  \<^verbatim>\<open>{ }\<close> gives 1.\<close>

theorem C3_begin_sequence_first_brace_witness:
  "des_begin_sequence Reads_Terminator
     \<lparr>m_str = ''Foo ( { 1, 2, 3 } )'', m_pos = 5, m_obj_count = 1, m_obj_had_left_parenthesis = [True]\<rparr>
   = Inr (3, \<lparr>m_str = ''Foo ( { 1, 2, 3 } )'', m_pos = 7, m_obj_count = 1,
               m_obj_had_left_parenthesis = [True]\<rparr>)
   \<and> des_begin_sequence Reads_Terminator
     \<lparr>m_str = ''Foo ( { } )'', m_pos = 5, m_obj_count = 1, m_obj_had_left_parenthesis = [True]\<rparr>
   = Inr (1, \<lparr>m_str = ''Foo ( { } )'', m_pos = 7, m_obj_count = 1,
               m_obj_had_left_parenthesis = [True]\<rparr>)"
  using C3_begin_sequence_first_brace [of
        "\<lparr>m_str = ''Foo ( { 1, 2, 3 } )'', m_pos = 5, m_obj_count = 1, m_obj_had_left_parenthesis = [True]\<rparr>"
        Reads_Terminator]
    C3_begin_sequence_first_brace [of
        "\<lparr>m_str = ''Foo ( { } )'', m_pos = 5, m_obj_count = 1, m_obj_had_left_parenthesis = [True]\<rparr>"
        Reads_Terminator]
  by (simp add: separators_end_def is_separator_def)

text \<open>
  Claim C3 as stated fails on a sequence that holds a sequence. In
  \<^verbatim>\<open>{ { 1, 2 }, 3 }\<close> the brace that matches the consumed one is the last, with two
  commas in front of it, so the count of the spec's words is 3; the code stops at the
  inner closing brace and returns 2.
\<close>

theorem C3_matching_brace_counterexample:
  "des_begin_sequence Reads_Terminator
     \<lparr>m_str = ''Foo ( { { 1, 2 }, 3 } )'', m_pos = 5, m_obj_count = 1, m_obj_had_left_parenthesis = [True]\<rparr>
   = Inr (2, \<lparr>m_str = ''Foo ( { { 1, 2 }, 3 } )'', m_pos = 7, m_obj_count = 1,
               m_obj_had_left_parenthesis = [True]\<rparr>)
   \<and> spec_sequence_count (drop 7 ''Foo ( { { 1, 2 }, 3 } )'') = 3"
  by (simp add: des_begin_sequence_def integrity_check_def consume_in_text Let_def
      separators_end_def is_separator_def spec_sequence_count_def)

text \<open>
  Claim C4. Let \<^verbatim>\<open>end_object\<close> be called with an object open and the counter at
  one, so that the decrement brings it to zero, and let the closing parenthesis be found
  where the object had an opening one, \<open>s1\<close> being the state behind it. Then the call
  succeeds, with the cursor at the end of the text, when everything from the cursor of
  \<open>s1\<close> on is a space or a comma, and raises the malformed-input error
  \<^verbatim>\<open>expected end of of string\<close> otherwise.
\<close>

theorem C4_end_object_outermost:
  assumes "m_pos s \<le> length (m_str s)" and "m_obj_had_left_parenthesis s \<noteq> []"
    and "m_obj_count s - 1 = 0"
    and "(if hd (m_obj_had_left_parenthesis s) then consume Reads_Terminator (CHR '')'') s else Inr s)
           = Inr s1"
  shows "des_end_object Reads_Terminator s =
           (if list_all is_separator (drop (m_pos s1) (m_str s1))
            then Inr (s1\<lparr>m_obj_had_left_parenthesis := tl (m_obj_had_left_parenthesis s1),
                         m_obj_count := 0, m_pos := length (m_str s1)\<rparr>)
            else throw_malformed ''expected end of of string'')"
proof -
  have pos1: "m_pos s1 \<le> length (m_str s1)"
    using assms(1,4) consume_pos_le [of s "CHR '')''" s1] by (auto split: if_splits)
  have count1: "m_obj_count s1 = m_obj_count s"
    using assms(4) by (auto simp: consume_def throw_malformed_def dest!: skip_space_and_comma_Inr
        split: if_splits sum.splits)
  have le: "separators_end s1 \<le> length (m_str s1)"
    by (rule separators_end_le [OF pos1])
  show ?thesis
  proof (cases "list_all is_separator (drop (m_pos s1) (m_str s1))")
    case True
    then have "separators_end s1 = length (m_str s1)"
      using separators_end_eq_length [OF pos1] by simp
    then show ?thesis
      using assms(2,3,4) True count1
      by (simp add: des_end_object_def Let_def skip_space_and_comma_eq)
  next
    case False
    then have "separators_end s1 < length (m_str s1)"
      using separators_end_eq_length [OF pos1] le by simp
    then show ?thesis
      using assms(2,3,4) False count1
      by (simp add: des_end_object_def Let_def skip_space_and_comma_eq)
  qed
qed

theorem C4_end_object_outermost_witness:
  "des_end_object Reads_Terminator
     \<lparr>m_str = ''Foo ( 1 ) , '', m_pos = 7, m_obj_count = 1, m_obj_had_left_parenthesis = [True]\<rparr>
   = Inr \<lparr>m_str = ''Foo ( 1 ) , '', m_pos = 12, m_obj_count = 0, m_obj_had_left_parenthesis = []\<rparr>
   \<and> des_end_object Reads_Terminator
     \<lparr>m_str = ''Foo ( 1 ) x'', m_pos = 7, m_obj_count = 1, m_obj_had_left_parenthesis = [True]\<rparr>
   = Inl (Logic_Error ''malformed string: expected end of of string'')"
  using C4_end_object_outermost [of
      "\<lparr>m_str = ''Foo ( 1 ) , '', m_pos = 7, m_obj_count = 1, m_obj_had_left_parenthesis = [True]\<rparr>"
      "\<lparr>m_str = ''Foo ( 1 ) , '', m_pos = 9, m_obj_count = 1, m_obj_had_left_parenthesis = [True]\<rparr>"]
    C4_end_object_outermost [of
      "\<lparr>m_str = ''Foo ( 1 ) x'', m_pos = 7, m_obj_count = 1, m_obj_had_left_parenthesis = [True]\<rparr>"
      "\<lparr>m_str = ''Foo ( 1 ) x'', m_pos = 9, m_obj_count = 1, m_obj_had_left_parenthesis = [True]\<rparr>"]
  by (simp add: consume_in_text separators_end_def is_separator_def throw_malformed_def)

text \<open>
  Claim C5, as the code has it. \<^verbatim>\<open>peek_object\<close> fails exactly when
  \<^verbatim>\<open>seek_object\<close> fails, with the same error. When \<^verbatim>\<open>seek_object\<close> returns a
  name, \<^verbatim>\<open>peek_object\<close> returns the same name and moves the cursor back by the length
  of the name: the name is not consumed, the separators in front of it are. The state
  after \<^verbatim>\<open>peek_object\<close> is the state before it with the cursor at the first character
  behind the separators, where the name stands. \<^verbatim>\<open>seek_object\<close> called next returns
  the name once more and ends in the very state a single \<^verbatim>\<open>seek_object\<close> ends in.
\<close>

theorem C5_peek_then_seek:
  "(case seek_object md s of
      Inl e \<Rightarrow> peek_object md s = Inl e
    | Inr (name, s') \<Rightarrow>
        peek_object md s = Inr (name, s\<lparr>m_pos := separators_end s\<rparr>)
        \<and> separators_end s + length name = m_pos s'
        \<and> take (length name) (drop (separators_end s) (m_str s)) = name
        \<and> seek_object md (s\<lparr>m_pos := separators_end s\<rparr>) = Inr (name, s'))"
proof (cases "seek_object md s")
  case (Inl e)
  then show ?thesis
    by (simp add: peek_object_def)
next
  case (Inr r)
  obtain name s' where r: "r = (name, s')"
    by (cases r)
  from Inr r obtain s1 where skip: "skip_space_and_comma md s = Inr s1"
    and ne: "m_pos s1 \<noteq> next_delimiter s1"
    and name: "name = take (next_delimiter s1 - m_pos s1) (drop (m_pos s1) (m_str s1))"
    and s'_def: "s' = s1\<lparr>m_pos := next_delimiter s1\<rparr>"
    by (auto simp: seek_object_def Let_def throw_malformed_def split: sum.splits if_splits)
  have s1: "s1 = s\<lparr>m_pos := separators_end s\<rparr>"
    using skip by (rule skip_space_and_comma_Inr)
  have in_text: "m_pos s1 \<le> length (m_str s1)"
  proof (rule ccontr)
    assume "\<not> m_pos s1 \<le> length (m_str s1)"
    then have "next_delimiter s1 = m_pos s1"
      by (simp add: next_delimiter_def)
    with ne show False by simp
  qed
  have len: "length name = next_delimiter s1 - m_pos s1"
    using next_delimiter_le [OF in_text] by (simp add: name)
  have restored: "s'\<lparr>m_pos := m_pos s' - length name\<rparr> = s1"
    using next_delimiter_ge [of s1] by (simp add: s'_def len)
  have peek: "peek_object md s = Inr (name, s1)"
    using Inr r restored by (simp add: peek_object_def)
  have again: "seek_object md s1 = Inr (name, s')"
    using skip_space_and_comma_idem [OF skip] ne name s'_def
    by (simp add: seek_object_def Let_def)
  have "m_pos s1 + length name = m_pos s'"
    using next_delimiter_ge [of s1] by (simp add: s'_def len)
  moreover have "take (length name) (drop (m_pos s1) (m_str s1)) = name"
    unfolding len by (simp add: name)
  ultimately show ?thesis
    using Inr r peek again by (simp add: s1)
qed

text \<open>On the text \<^verbatim>\<open> , Foo ( 1 )\<close>: \<^verbatim>\<open>peek_object\<close> leaves the cursor at 3, in
  front of the name, and \<^verbatim>\<open>seek_object\<close> from there or from the start ends at 6.\<close>

theorem C5_peek_then_seek_witness:
  "peek_object Reads_Terminator (string_deserializer_init '' , Foo ( 1 )'')
     = Inr (''Foo'', \<lparr>m_str = '' , Foo ( 1 )'', m_pos = 3, m_obj_count = 0,
                      m_obj_had_left_parenthesis = []\<rparr>)
   \<and> seek_object Reads_Terminator
       \<lparr>m_str = '' , Foo ( 1 )'', m_pos = 3, m_obj_count = 0, m_obj_had_left_parenthesis = []\<rparr>
     = Inr (''Foo'', \<lparr>m_str = '' , Foo ( 1 )'', m_pos = 6, m_obj_count = 0,
                      m_obj_had_left_parenthesis = []\<rparr>)
   \<and> seek_object Reads_Terminator (string_deserializer_init '' , Foo ( 1 )'')
     = Inr (''Foo'', \<lparr>m_str = '' , Foo ( 1 )'', m_pos = 6, m_obj_count = 0,
                      m_obj_had_left_parenthesis = []\<rparr>)"
  using C5_peek_then_seek [of Reads_Terminator "string_deserializer_init '' , Foo ( 1 )''"]
  by (simp add: seek_object_def skip_space_and_comma_eq separators_end_def is_separator_def
      next_delimiter_def is_delimiter_def string_deserializer_init_def Let_def)

text \<open>
  Claim C5 as stated fails where it says that the position is restored: on the text
  \<^verbatim>\<open> Foo\<close>, with a space in front of the name, the cursor is at 0 before
  \<^verbatim>\<open>peek_object\<close> and at 1 after it.
\<close>

theorem C5_position_restored_counterexample:
  "m_pos (string_deserializer_init '' Foo'') = 0
   \<and> peek_object Reads_Terminator (string_deserializer_init '' Foo'')
     = Inr (''Foo'', \<lparr>m_str = '' Foo'', m_pos = 1, m_obj_count = 0,
                      m_obj_had_left_parenthesis = []\<rparr>)
   \<and> peek_object Reads_Terminator (string_deserializer_init '' Foo'')
     \<noteq> Inr (''Foo'', string_deserializer_init '' Foo'')"
  by (simp add: peek_object_def seek_object_def skip_space_and_comma_eq separators_end_def
      is_separator_def next_delimiter_def is_delimiter_def string_deserializer_init_def Let_def)

text \<open>
  Claim C6 fails on the code. \<^verbatim>\<open>read_value\<close> has a branch for a byte string that
  does not start with a double quote and scans it to the next delimiter, but the check
  for the closing quote that follows is made for every byte string: the cursor then
  stands on the delimiter, which is no double quote. So in an open object with fields, a
  string-tagged \<^verbatim>\<open>read_value\<close> whose next character behind the separators is not a
  double quote never returns a value: it raises the unterminated-value error when no
  delimiter follows, and the expected-quote error naming the delimiter otherwise.
\<close>

theorem C6_unquoted_string_rejected:
  assumes "m_obj_had_left_parenthesis s \<noteq> []" and "hd (m_obj_had_left_parenthesis s)"
    and "separators_end s < length (m_str s)" and "m_str s ! separators_end s \<noteq> dquote"
  shows "read_value md get pt_u8string s =
           (let token_end = separators_end s + find_if find_if_cond (drop (separators_end s) (m_str s))
            in if token_end = length (m_str s)
               then Inl (Logic_Error ''malformed string (unterminated value)'')
               else Inl (Logic_Error (''malformed string, expected '' @ [squote, dquote, squote]
                                      @ '' found '' @ [squote, m_str s ! token_end, squote])))"
proof -
  let ?p = "separators_end s"
  let ?e = "?p + find_if find_if_cond (drop ?p (m_str s))"
  have skip: "skip_space_and_comma md s = Inr (s\<lparr>m_pos := ?p\<rparr>)"
    using assms(3) by (simp add: skip_space_and_comma_eq)
  have fse: "find_substr_end md pt_u8string (s\<lparr>m_pos := ?p\<rparr>) = Inr (s\<lparr>m_pos := ?p\<rparr>, ?e)"
    using assms(3,4) by (simp add: find_substr_end_def deref_in_text)
  show ?thesis
  proof (cases "?e = length (m_str s)")
    case True
    then show ?thesis
      using assms(1,2) skip fse by (simp add: read_value_def integrity_check_def Let_def)
  next
    case False
    with token_end_cases [of ?p "m_str s" find_if_cond] assms(3)
    have e: "?e < length (m_str s)" and d: "find_if_cond (m_str s ! ?e)"
      by auto
    have len: "?p + length (take (?e - ?p) (drop ?p (m_str s))) = ?e"
      using e by simp
    have "deref md (s\<lparr>m_pos := ?e\<rparr>) = Inr (m_str s ! ?e)"
      using e by (simp add: deref_in_text)
    then show ?thesis
      using assms(1,2) skip fse len False find_if_cond_not_dquote [OF d]
      by (simp add: read_value_def integrity_check_def Let_def del: length_take)
  qed
qed

text \<open>The failing input: the token \<^verbatim>\<open>abc\<close> of \<^verbatim>\<open>Foo ( abc )\<close> read as a byte
  string.\<close>

theorem C6_unquoted_string_rejected_witness:
  "read_value Reads_Terminator (\<lambda>t x. x) pt_u8string
     \<lparr>m_str = ''Foo ( abc )'', m_pos = 5, m_obj_count = 1, m_obj_had_left_parenthesis = [True]\<rparr>
   = Inl (Logic_Error (''malformed string, expected '' @ [squote, dquote, squote]
                       @ '' found '' @ [squote, CHR '' '', squote]))"
  using C6_unquoted_string_rejected [of
      "\<lparr>m_str = ''Foo ( abc )'', m_pos = 5, m_obj_count = 1, m_obj_had_left_parenthesis = [True]\<rparr>"
      Reads_Terminator "\<lambda>t x. x"]
  by (simp add: separators_end_def is_separator_def find_if_cond_def)

text \<open>
  Claim C9 fails on the code. With \<open>Checked\<close>, the reading in which a read at or
  behind the end of the text gives the out-of-bounds signal, the signal is reached on
  well-formed input. Reading \<^verbatim>\<open>Foo ( 1 )\<close>, the name, the parenthesis and the value
  are read inside the text, and \<^verbatim>\<open>end_object\<close> consumes the closing parenthesis,
  which leaves the cursor at the end, position 9; the counter is at zero, so
  \<^verbatim>\<open>skip_space_and_comma\<close> is called and reads there. Reading the object \<^verbatim>\<open>Foo\<close>
  without fields, \<^verbatim>\<open>seek_object\<close> leaves the cursor at the end and
  \<^verbatim>\<open>begin_object\<close> reads there. \<^verbatim>\<open>skip_space_and_comma\<close> tests \<^verbatim>\<open>*m_pos\<close>
  without comparing \<^verbatim>\<open>m_pos\<close> with \<^verbatim>\<open>m_str.end()\<close>; \<^verbatim>\<open>end_object\<close> compares
  them only after the call. With the terminator readable the same call succeeds.
\<close>

theorem C9_end_of_input_is_read:
  "seek_object Checked (string_deserializer_init ''Foo ( 1 )'')
     = Inr (''Foo'', \<lparr>m_str = ''Foo ( 1 )'', m_pos = 3, m_obj_count = 0, m_obj_had_left_parenthesis = []\<rparr>)
   \<and> des_begin_object Checked ''Foo''
         \<lparr>m_str = ''Foo ( 1 )'', m_pos = 3, m_obj_count = 0, m_obj_had_left_parenthesis = []\<rparr>
     = Inr \<lparr>m_str = ''Foo ( 1 )'', m_pos = 5, m_obj_count = 1, m_obj_had_left_parenthesis = [True]\<rparr>
   \<and> read_value Checked (\<lambda>t x. x) (pt_scalar st_int32)
         \<lparr>m_str = ''Foo ( 1 )'', m_pos = 5, m_obj_count = 1, m_obj_had_left_parenthesis = [True]\<rparr>
     = Inr (PV_scalar st_int32 ''1'',
            \<lparr>m_str = ''Foo ( 1 )'', m_pos = 7, m_obj_count = 1, m_obj_had_left_parenthesis = [True]\<rparr>)
   \<and> consume Checked (CHR '')'')
         \<lparr>m_str = ''Foo ( 1 )'', m_pos = 7, m_obj_count = 1, m_obj_had_left_parenthesis = [True]\<rparr>
     = Inr \<lparr>m_str = ''Foo ( 1 )'', m_pos = 9, m_obj_count = 1, m_obj_had_left_parenthesis = [True]\<rparr>
   \<and> length ''Foo ( 1 )'' = 9
   \<and> des_end_object Checked
         \<lparr>m_str = ''Foo ( 1 )'', m_pos = 7, m_obj_count = 1, m_obj_had_left_parenthesis = [True]\<rparr>
     = Inl Out_Of_Bounds
   \<and> des_end_object Reads_Terminator
         \<lparr>m_str = ''Foo ( 1 )'', m_pos = 7, m_obj_count = 1, m_obj_had_left_parenthesis = [True]\<rparr>
     = Inr \<lparr>m_str = ''Foo ( 1 )'', m_pos = 9, m_obj_count = 0, m_obj_had_left_parenthesis = []\<rparr>
   \<and> seek_object Checked (string_deserializer_init ''Foo'')
     = Inr (''Foo'', \<lparr>m_str = ''Foo'', m_pos = 3, m_obj_count = 0, m_obj_had_left_parenthesis = []\<rparr>)
   \<and> des_begin_object Checked ''Foo''
         \<lparr>m_str = ''Foo'', m_pos = 3, m_obj_count = 0, m_obj_had_left_parenthesis = []\<rparr>
     = Inl Out_Of_Bounds"
  by (simp add: string_deserializer_init_def Let_def
      seek_object_def skip_space_and_comma_eq separators_end_def is_separator_def
      next_delimiter_def is_delimiter_def des_begin_object_def try_consume_in_text consume_in_text
      read_value_def integrity_check_def find_substr_end_def deref_def find_if_cond_def
      des_end_object_def)

text \<open>
  The extent of the reads. With the terminator readable no read goes behind it: from a
  cursor inside the text or at its end, \<^verbatim>\<open>skip_space_and_comma\<close>, \<^verbatim>\<open>consume\<close>
  and \<^verbatim>\<open>try_consume\<close> never give the out-of-bounds signal. And the part of the
  claim about \<^verbatim>\<open>read_value\<close> holds: once its call of
  \<^verbatim>\<open>skip_space_and_comma\<close> has returned, the test for the opening quote and the
  check for the closing quote read inside the text.
\<close>

lemma terminator_suffices:
  assumes "m_pos s \<le> length (m_str s)"
  shows "skip_space_and_comma Reads_Terminator s \<noteq> Inl Out_Of_Bounds"
    and "consume Reads_Terminator c s \<noteq> Inl Out_Of_Bounds"
    and "try_consume Reads_Terminator c s \<noteq> Inl Out_Of_Bounds"
proof -
  have le: "separators_end s \<le> length (m_str s)"
    by (rule separators_end_le [OF assms])
  then have skip: "skip_space_and_comma Reads_Terminator s = Inr (s\<lparr>m_pos := separators_end s\<rparr>)"
    by (auto simp: skip_space_and_comma_eq)
  then show "skip_space_and_comma Reads_Terminator s \<noteq> Inl Out_Of_Bounds"
    by simp
  have "deref Reads_Terminator (s\<lparr>m_pos := separators_end s\<rparr>) \<noteq> Inl Out_Of_Bounds"
    using le by (auto simp: deref_def)
  then show "consume Reads_Terminator c s \<noteq> Inl Out_Of_Bounds"
    and "try_consume Reads_Terminator c s \<noteq> Inl Out_Of_Bounds"
    by (auto simp: consume_def try_consume_def skip throw_malformed_def split: sum.splits)
qed

lemma unescape_loop_in_text: "unescape_loop substr l sbegin tmp \<noteq> Inl Out_Of_Bounds"
proof (induction substr l sbegin tmp rule: unescape_loop.induct)
  case (1 substr last_char sbegin tmp)
  show ?case
    using "1.IH" by (subst unescape_loop.simps) (auto split: prod.splits)
qed

lemma unescape_in_text: "unescape substr \<noteq> Inl Out_Of_Bounds"
  using unescape_loop_in_text [of substr "CHR '' ''" 0 "[]"]
  by (auto simp: unescape_def Let_def split: sum.splits)

lemma closing_quote_check_in_text:
  assumes "skip_space_and_comma Checked s = Inr s1"
  shows "read_value Checked get ptype s \<noteq> Inl Out_Of_Bounds"
proof -
  have s1: "s1 = s\<lparr>m_pos := separators_end s\<rparr>" and p: "separators_end s < length (m_str s)"
    using assms by (auto simp: skip_space_and_comma_eq split: if_splits)
  have d: "deref Checked s1 = Inr (m_str s ! separators_end s)"
    using p by (simp add: s1 deref_in_text)
  show ?thesis
  proof (cases "find_substr_end Checked ptype s1")
    case (Inl e)
    then show ?thesis
      using d by (auto simp: find_substr_end_def Let_def split: if_splits)
  next
    case (Inr r)
    obtain s2 substr_end where r: "r = (s2, substr_end)"
      by (cases r)
    have str: "m_str s2 = m_str s" and pos: "m_pos s2 \<le> substr_end"
      and e: "substr_end \<le> length (m_str s)"
      using Inr d p find_if_le [of find_if_cond "drop (m_pos s1) (m_str s1)"]
        find_if_last_le [of find_if_str_cond dquote "drop (Suc (m_pos s1)) (m_str s1)"]
      by (auto simp: r find_substr_end_def Let_def s1 split: if_splits)
    show ?thesis
    proof (cases "substr_end = length (m_str s)")
      case True
      then show ?thesis
        using assms Inr r str
        by (auto simp: read_value_def Let_def throw_malformed_def integrity_check_def
            split: sum.splits)
    next
      case False
      then have "substr_end < length (m_str s)"
        using e by simp
      then have "deref Checked (s2\<lparr>m_pos := m_pos s2 + length (take (substr_end - m_pos s2)
                   (drop (m_pos s2) (m_str s2)))\<rparr>) = Inr (m_str s ! substr_end)"
        using pos by (auto simp: deref_in_text str min_def)
      then show ?thesis
        using assms Inr r str False unescape_in_text
        by (auto simp: read_value_def Let_def throw_malformed_def integrity_check_def
            simp del: length_take split: sum.splits)
    qed
  qed
qed

text \<open>
  Claim C10. In an open object with fields, \<^verbatim>\<open>read_value\<close> with the UTF-16 or the
  UTF-32 string tag takes the token that starts behind the separators and ends in front
  of the next closing parenthesis, closing brace, space or comma. When there is no such
  delimiter it raises the unterminated-value error. Otherwise it moves the cursor to the
  delimiter and returns the value of its tag with the empty string as payload, whatever
  the token holds.
\<close>

theorem C10_wide_string_token_discarded:
  assumes "ptype = pt_u16string \<or> ptype = pt_u32string"
    and "m_obj_had_left_parenthesis s \<noteq> []" and "hd (m_obj_had_left_parenthesis s)"
    and "m_pos s \<le> length (m_str s)"
  shows "read_value Reads_Terminator get ptype s =
           (let token_end = separators_end s + find_if find_if_cond (drop (separators_end s) (m_str s))
            in if token_end = length (m_str s)
               then Inl (Logic_Error ''malformed string (unterminated value)'')
               else Inr (if ptype = pt_u16string then PV_u16string [] else PV_u32string [],
                         s\<lparr>m_pos := token_end\<rparr>))"
proof -
  let ?p = "separators_end s"
  let ?e = "?p + find_if find_if_cond (drop ?p (m_str s))"
  have le: "?p \<le> length (m_str s)"
    by (rule separators_end_le [OF assms(4)])
  have skip: "skip_space_and_comma Reads_Terminator s = Inr (s\<lparr>m_pos := ?p\<rparr>)"
    using le by (auto simp: skip_space_and_comma_eq)
  have fse: "find_substr_end Reads_Terminator ptype (s\<lparr>m_pos := ?p\<rparr>) = Inr (s\<lparr>m_pos := ?p\<rparr>, ?e)"
    using assms(1) by (auto simp: find_substr_end_def)
  have e: "?e \<le> length (m_str s)"
    using token_end_cases [OF le, of find_if_cond] by auto
  have len: "?p + length (take (?e - ?p) (drop ?p (m_str s))) = ?e"
    using e by simp
  show ?thesis
    using assms(1,2,3) skip fse len
    by (auto simp: read_value_def integrity_check_def Let_def simp del: length_take)
qed

theorem C10_wide_string_token_discarded_witness:
  "read_value Reads_Terminator (\<lambda>t x. x) pt_u16string
     \<lparr>m_str = ''Foo ( abc )'', m_pos = 5, m_obj_count = 1, m_obj_had_left_parenthesis = [True]\<rparr>
   = Inr (PV_u16string [],
          \<lparr>m_str = ''Foo ( abc )'', m_pos = 9, m_obj_count = 1, m_obj_had_left_parenthesis = [True]\<rparr>)
   \<and> read_value Reads_Terminator (\<lambda>t x. x) pt_u32string
     \<lparr>m_str = ''Foo ( xyz )'', m_pos = 5, m_obj_count = 1, m_obj_had_left_parenthesis = [True]\<rparr>
   = Inr (PV_u32string [],
          \<lparr>m_str = ''Foo ( xyz )'', m_pos = 9, m_obj_count = 1, m_obj_had_left_parenthesis = [True]\<rparr>)"
  using C10_wide_string_token_discarded [of pt_u16string
      "\<lparr>m_str = ''Foo ( abc )'', m_pos = 5, m_obj_count = 1, m_obj_had_left_parenthesis = [True]\<rparr>"
      "\<lambda>t x. x"]
    C10_wide_string_token_discarded [of pt_u32string
      "\<lparr>m_str = ''Foo ( xyz )'', m_pos = 5, m_obj_count = 1, m_obj_had_left_parenthesis = [True]\<rparr>"
      "\<lambda>t x. x"]
  by (simp add: separators_end_def is_separator_def find_if_cond_def)

end
